theory Spec2Isabelle
  imports Complex_Main
begin

section \<open>Keystroke dynamics: the recorder, the comparator and the analyzer of static/keystroke.js\<close>

text \<open>
  The source file holds three variants of \<^verbatim>\<open>static/keystroke.js\<close>. This development
  follows the most complete one (source lines 294 to 690: \<^verbatim>\<open>KeystrokeRecorder\<close> with
  \<^verbatim>\<open>keyStates\<close> holding the index of the open record, \<^verbatim>\<open>compareKeystrokePatterns\<close> and
  \<^verbatim>\<open>analyzeKeystrokePattern\<close> with the positive-dwell filter). The last section models the
  two places where another variant differs on a property proved here.

  Numbers. \<^verbatim>\<open>performance.now()\<close> yields a finite, sub-millisecond reading; it is a
  \<open>real\<close> here, and so are the score and the averages. The times stored in records are
  results of \<^verbatim>\<open>Math.round\<close> and are integers. The products \<^verbatim>\<open>length * 0.3\<close> and
  \<^verbatim>\<open>length * 0.5\<close> are only compared with integer counts, and are taken exactly.
\<close>

subsection \<open>JavaScript primitives\<close>

definition js_round :: "real \<Rightarrow> int" where
  \<comment> \<open>\<^verbatim>\<open>Math.round\<close>: the nearest integer, a tie going up.\<close>
  "js_round x = \<lfloor>x + 1 / 2\<rfloor>"

definition falsy :: "real option \<Rightarrow> bool" where
  \<comment> \<open>\<^verbatim>\<open>!startTime\<close> for a value that is \<^verbatim>\<open>null\<close> or a finite number.\<close>
  "falsy v = (v = None \<or> v = Some 0)"

definition to_number :: "real option \<Rightarrow> real" where
  \<comment> \<open>A nullable number as an operand of \<^verbatim>\<open>-\<close>: \<^verbatim>\<open>null\<close> counts as 0.\<close>
  "to_number v = (case v of None \<Rightarrow> 0 | Some x \<Rightarrow> x)"

definition int_number :: "int option \<Rightarrow> int" where
  \<comment> \<open>The same coercion for the integer times of a record.\<close>
  "int_number v = (case v of None \<Rightarrow> 0 | Some x \<Rightarrow> x)"

subsection \<open>Data\<close>

text \<open>
  A payload entry is \<^verbatim>\<open>{key, press_time, release_time}\<close>; the recorder's own entries carry
  \<^verbatim>\<open>index\<close> as well, and their \<^verbatim>\<open>release_time\<close> is \<^verbatim>\<open>null\<close> until the key is released.
\<close>

record keystroke =
  key :: string
  press_time :: int
  release_time :: "int option"

record timing = keystroke +
  index :: nat

text \<open>The value that \<^verbatim>\<open>keyStates\<close> holds for a pressed key: \<^verbatim>\<open>{startTime, index}\<close>.\<close>

record keyState =
  ks_startTime :: int
  ks_index :: nat

text \<open>The variables of the closure \<^verbatim>\<open>KeystrokeRecorder\<close>.\<close>

record recorder =
  timings :: "timing list"
  startTime :: "real option"
  isRecording :: bool
  keyStates :: "string \<rightharpoonup> keyState"

text \<open>
  The exported object. A payload handed to the comparator or to the analyzer may lack
  \<^verbatim>\<open>keystroke_timings\<close> (both test for it), hence the option.
\<close>

record payload =
  password :: string
  keystroke_timings :: "keystroke list option"
  total_time :: int

subsection \<open>The recorder (source lines 296 to 424)\<close>

definition init :: recorder where
  "init = \<lparr>timings = [], startTime = None, isRecording = False, keyStates = Map.empty\<rparr>"

definition startRecording :: "recorder \<Rightarrow> real \<Rightarrow> recorder" where
  "startRecording s now =
     s\<lparr>timings := [], keyStates := Map.empty, startTime := Some now, isRecording := True\<rparr>"

definition reset :: "recorder \<Rightarrow> recorder" where
  "reset s = s\<lparr>timings := [], keyStates := Map.empty, startTime := None, isRecording := False\<rparr>"

definition onKeyDown :: "recorder \<Rightarrow> string \<Rightarrow> real \<Rightarrow> recorder" where
  "onKeyDown s keyCode currentTime =
     (if \<not> isRecording s then s
      else
        let s1 = (if falsy (startTime s) then s\<lparr>startTime := Some currentTime\<rparr> else s);
            relativeTime = js_round (currentTime - to_number (startTime s1))
        in if keyStates s1 keyCode \<noteq> None then s1
           else s1\<lparr>keyStates := (keyStates s1)(keyCode \<mapsto>
                       \<lparr>ks_startTime = relativeTime, ks_index = length (timings s1)\<rparr>),
                   timings := timings s1 @
                       [\<lparr>key = keyCode, press_time = relativeTime, release_time = None,
                         index = length (timings s1)\<rparr>]\<rparr>)"

definition onKeyUp :: "recorder \<Rightarrow> string \<Rightarrow> real \<Rightarrow> recorder" where
  "onKeyUp s keyCode currentTime =
     (if \<not> isRecording s then s
      else
        let relativeTime = js_round (currentTime - to_number (startTime s))
        in case keyStates s keyCode of
             None \<Rightarrow> s
           | Some keyState \<Rightarrow>
               let timingIndex = ks_index keyState;
                   s1 = (if timingIndex < length (timings s)
                            \<and> release_time (timings s ! timingIndex) = None
                         then s\<lparr>timings := (timings s)[timingIndex :=
                                  (timings s ! timingIndex)\<lparr>release_time := Some relativeTime\<rparr>]\<rparr>
                         else s)
               in s1\<lparr>keyStates := (keyStates s1)(keyCode := None)\<rparr>)"

definition exportPayload :: "recorder \<Rightarrow> string \<Rightarrow> real \<Rightarrow> payload" where
  \<comment> \<open>\<^verbatim>\<open>inputValue\<close> is \<^verbatim>\<open>inputEl.value\<close> and \<^verbatim>\<open>endTime\<close> the clock, both read at the call.
      The filter's second test, \<^verbatim>\<open>t.press_time !== null\<close>, holds of every integer.\<close>
  "exportPayload s inputValue endTime =
     (let totalTime = (if falsy (startTime s) then 0
                       else js_round (endTime - to_number (startTime s)));
          validTimings =
            map (\<lambda>t. \<lparr>key = key t, press_time = press_time t, release_time = release_time t\<rparr>)
              (filter (\<lambda>t. release_time t \<noteq> None) (timings s))
      in \<lparr>password = (if inputValue = [] then [] else inputValue),
          keystroke_timings = Some validTimings,
          total_time = totalTime\<rparr>)"

definition stopRecording :: "recorder \<Rightarrow> string \<Rightarrow> real \<Rightarrow> recorder \<times> payload" where
  "stopRecording s inputValue now =
     (let s1 = s\<lparr>isRecording := False\<rparr> in (s1, exportPayload s1 inputValue now))"

text \<open>
  The calls a host can make on a recorder, each with what it reads from outside: the
  clock, and for an export the text of the input.
\<close>

datatype event =
    Start real
  | Stop string real
  | KeyDown string real
  | KeyUp string real
  | Reset
  | Export string real

fun step :: "recorder \<Rightarrow> event \<Rightarrow> recorder" where
  "step s (Start now) = startRecording s now"
| "step s (Stop v now) = fst (stopRecording s v now)"
| "step s (KeyDown k now) = onKeyDown s k now"
| "step s (KeyUp k now) = onKeyUp s k now"
| "step s Reset = reset s"
| "step s (Export v now) = s"

definition run :: "event list \<Rightarrow> recorder" where
  \<comment> \<open>The recorder after a sequence of calls on a fresh one.\<close>
  "run evs = foldl step init evs"

fun clock_of :: "event \<Rightarrow> real list" where
  "clock_of (Start now) = [now]"
| "clock_of (Stop v now) = [now]"
| "clock_of (KeyDown k now) = [now]"
| "clock_of (KeyUp k now) = [now]"
| "clock_of Reset = []"
| "clock_of (Export v now) = [now]"

definition clocks :: "event list \<Rightarrow> real list" where
  \<comment> \<open>The clock readings of a sequence of calls, in order.\<close>
  "clocks evs = concat (map clock_of evs)"

subsection \<open>The comparator (source lines 427 to 479)\<close>

text \<open>
  The \<^verbatim>\<open>reason\<close> strings of the source are not ASCII; the constructors stand for, in
  this order: "Datos insuficientes", "Contrasenas diferentes", "Longitudes muy diferentes",
  "No hay comparaciones validas", "Patron consistente", "Patron inconsistente". The early
  returns have no \<^verbatim>\<open>avgDifference\<close> and no \<^verbatim>\<open>validComparisons\<close>.
\<close>

datatype reason =
    InsufficientData
  | PasswordMismatch
  | LengthMismatch
  | NoValidComparisons
  | Consistent
  | Inconsistent

record comparison =
  similar :: bool
  score :: real
  reason :: reason
  avgDifference :: "int option"
  validComparisons :: "nat option"

definition dwell :: "keystroke \<Rightarrow> int" where
  \<comment> \<open>\<^verbatim>\<open>t.release_time - t.press_time\<close>\<close>
  "dwell t = int_number (release_time t) - press_time t"

definition rejected :: "reason \<Rightarrow> comparison" where
  \<comment> \<open>\<^verbatim>\<open>{ similar: false, score: 0, reason: ... }\<close>\<close>
  "rejected r = \<lparr>similar = False, score = 0, reason = r, avgDifference = None,
                  validComparisons = None\<rparr>"

definition compare_step :: "keystroke list \<Rightarrow> keystroke list \<Rightarrow> nat \<Rightarrow> int \<times> nat \<Rightarrow> int \<times> nat" where
  \<comment> \<open>The body of the loop at index \<open>i\<close>, on the pair (totalDifference, validComparisons).\<close>
  "compare_step timings1 timings2 i acc =
     (case acc of (totalDifference, valid) \<Rightarrow>
        if key (timings1 ! i) = key (timings2 ! i)
        then
          let dwell1 = dwell (timings1 ! i);
              dwell2 = dwell (timings2 ! i)
          in if dwell1 > 0 \<and> dwell2 > 0
             then (totalDifference + \<bar>dwell1 - dwell2\<bar>, valid + 1)
             else acc
        else acc)"

definition compare_loop :: "keystroke list \<Rightarrow> keystroke list \<Rightarrow> int \<times> nat" where
  \<comment> \<open>\<^verbatim>\<open>for (let i = 0; i < minLength; i++)\<close>, from (0, 0).\<close>
  "compare_loop timings1 timings2 =
     fold (compare_step timings1 timings2) [0..<min (length timings1) (length timings2)] (0, 0)"

definition compareKeystrokePatterns :: "payload \<Rightarrow> payload \<Rightarrow> real \<Rightarrow> comparison" where
  \<comment> \<open>The threshold is 0.7 when the caller gives none.\<close>
  "compareKeystrokePatterns pattern1 pattern2 threshold =
     (case (keystroke_timings pattern1, keystroke_timings pattern2) of
        (Some timings1, Some timings2) \<Rightarrow>
          if password pattern1 \<noteq> password pattern2 then rejected PasswordMismatch
          else if \<bar>int (length timings1) - int (length timings2)\<bar> > 2 then rejected LengthMismatch
          else
            (case compare_loop timings1 timings2 of (totalDifference, valid) \<Rightarrow>
               if valid = 0 then rejected NoValidComparisons
               else
                 let avg = real_of_int totalDifference / real valid;
                     maxExpectedDiff = 150;
                     sc = max 0 (1 - avg / maxExpectedDiff)
                 in \<lparr>similar = (sc \<ge> threshold),
                     score = real_of_int (js_round (sc * 100)) / 100,
                     reason = (if sc \<ge> threshold then Consistent else Inconsistent),
                     avgDifference = Some (js_round avg),
                     validComparisons = Some valid\<rparr>)
      | _ \<Rightarrow> rejected InsufficientData)"

subsection \<open>The analyzer (source lines 482 to 544)\<close>

text \<open>
  The anomalies are, in this order: "Muchas teclas mantenidas demasiado tiempo", "Muchas
  teclas presionadas muy rapido", "Demasiadas teclas superpuestas"; the reasons of an
  invalid result: "Sin datos de timing", "No hay dwell times validos".
\<close>

datatype anomaly = KeysHeldTooLong | KeysTooFast | ExcessiveOverlap

datatype invalid_reason = NoTimingData | NoValidDwells

record stats =
  avgDwell :: int
  avgFlight :: int
  totalKeys :: nat
  validDwells :: nat
  totalTime :: int

datatype analysis =
    Invalid invalid_reason
  | Report bool "anomaly list" stats

definition dwellTimes :: "keystroke list \<Rightarrow> int list" where
  "dwellTimes ts = filter (\<lambda>d. d > 0) (map dwell ts)"

definition flights :: "keystroke list \<Rightarrow> int list" where
  \<comment> \<open>The value \<^verbatim>\<open>flight\<close> at each turn of the second loop.\<close>
  "flights ts =
     map (\<lambda>i. press_time (ts ! (i + 1)) - int_number (release_time (ts ! i))) [0..<length ts - 1]"

definition flightTimes :: "keystroke list \<Rightarrow> int list" where
  "flightTimes ts = filter (\<lambda>flight. flight \<ge> 0) (flights ts)"

definition detect :: "keystroke list \<Rightarrow> anomaly list" where
  \<comment> \<open>The three tests that fill \<^verbatim>\<open>anomalies\<close>.\<close>
  "detect ts =
     (let longDwells = length (filter (\<lambda>d. d > 500) (dwellTimes ts));
          shortDwells = length (filter (\<lambda>d. d < 30) (dwellTimes ts));
          negativeFlights = length (filter (\<lambda>f. f < 0) (flightTimes ts))
      in (if real longDwells > real (length ts) * (3 / 10) then [KeysHeldTooLong] else [])
         @ (if real shortDwells > real (length ts) * (3 / 10) then [KeysTooFast] else [])
         @ (if real negativeFlights > real (length (flightTimes ts)) * (1 / 2)
            then [ExcessiveOverlap] else []))"

definition analyzeKeystrokePattern :: "payload \<Rightarrow> analysis" where
  "analyzeKeystrokePattern data =
     (case keystroke_timings data of
        None \<Rightarrow> Invalid NoTimingData
      | Some ts \<Rightarrow>
          if length ts = 0 then Invalid NoTimingData
          else if length (dwellTimes ts) = 0 then Invalid NoValidDwells
          else
            let avgD = real_of_int (foldl (+) 0 (dwellTimes ts)) / real (length (dwellTimes ts));
                avgF = (if length (flightTimes ts) > 0
                        then real_of_int (foldl (+) 0 (flightTimes ts)) / real (length (flightTimes ts))
                        else 0);
                anomalies = detect ts
            in Report (length anomalies = 0) anomalies
                 \<lparr>avgDwell = js_round avgD, avgFlight = js_round avgF, totalKeys = length ts,
                  validDwells = length (dwellTimes ts), totalTime = total_time data\<rparr>)"

definition anomalies_of :: "analysis \<Rightarrow> anomaly list" where
  \<comment> \<open>The anomalies a result reports; an invalid result has none.\<close>
  "anomalies_of r = (case r of Invalid why \<Rightarrow> [] | Report valid anomalies st \<Rightarrow> anomalies)"

definition entries :: "payload \<Rightarrow> keystroke list" where
  \<comment> \<open>The timing entries of a payload; none when the list is missing.\<close>
  "entries p = (case keystroke_timings p of None \<Rightarrow> [] | Some ts \<Rightarrow> ts)"

subsection \<open>Two places where another variant differs\<close>

text \<open>
  The shortest variant of the recorder (source lines 693 to 747) has no \<^verbatim>\<open>keyStates\<close>: its
  \<^verbatim>\<open>onKeyDown\<close> (lines 702 to 715) looks at the last record only. \<^verbatim>\<open>Date.now()\<close> is an
  integer; the function reads it once when \<^verbatim>\<open>t0\<close> is falsy (\<open>now0\<close>) and once for the
  press time (\<open>now1\<close>).
\<close>

record simple_recorder =
  simple_timings :: "keystroke list"
  simple_t0 :: "int option"
  simple_lastUpTime :: "int option"

definition simple_init :: simple_recorder where
  "simple_init = \<lparr>simple_timings = [], simple_t0 = None, simple_lastUpTime = None\<rparr>"

definition simple_onKeyDown :: "simple_recorder \<Rightarrow> string \<Rightarrow> int \<Rightarrow> int \<Rightarrow> simple_recorder" where
  "simple_onKeyDown s k now0 now1 =
     (let s1 = (if simple_t0 s = None \<or> simple_t0 s = Some 0
                then s\<lparr>simple_t0 := Some now0, simple_lastUpTime := Some now0\<rparr> else s);
          t = now1 - int_number (simple_t0 s1)
      in if simple_timings s1 \<noteq> []
            \<and> key (last (simple_timings s1)) = k
            \<and> release_time (last (simple_timings s1)) = None
         then s1
         else s1\<lparr>simple_timings := simple_timings s1 @
                  [\<lparr>key = k, press_time = t, release_time = None\<rparr>]\<rparr>)"

text \<open>
  The loop body of the comparator in the variant at source lines 1 to 293 (lines 152 to
  161) has no test on the dwells.
\<close>

definition unfiltered_compare_step ::
    "keystroke list \<Rightarrow> keystroke list \<Rightarrow> nat \<Rightarrow> int \<times> nat \<Rightarrow> int \<times> nat" where
  "unfiltered_compare_step timings1 timings2 i acc =
     (case acc of (totalDifference, valid) \<Rightarrow>
        if key (timings1 ! i) = key (timings2 ! i)
        then
          let dwell1 = dwell (timings1 ! i);
              dwell2 = dwell (timings2 ! i)
          in (totalDifference + \<bar>dwell1 - dwell2\<bar>, valid + 1)
        else acc)"

subsection \<open>Predicates and measures used in the statements\<close>

definition has_open_record :: "recorder \<Rightarrow> string \<Rightarrow> bool" where
  \<comment> \<open>Some record of the key has no release time yet.\<close>
  "has_open_record s k = (\<exists>r \<in> set (timings s). key r = k \<and> release_time r = None)"

definition records_for :: "recorder \<Rightarrow> string \<Rightarrow> timing list" where
  "records_for s k = filter (\<lambda>r. key r = k) (timings s)"

definition closed_count :: "recorder \<Rightarrow> nat" where
  \<comment> \<open>The number of records that have a release time.\<close>
  "closed_count s = length (filter (\<lambda>t. release_time t \<noteq> None) (timings s))"

definition press_times :: "recorder \<Rightarrow> int list" where
  "press_times s = map press_time (timings s)"

fun other_key :: "string \<Rightarrow> event \<Rightarrow> bool" where
  \<comment> \<open>A press or a release of a key other than \<open>a\<close>.\<close>
  "other_key a (KeyDown k now) = (k \<noteq> a)"
| "other_key a (KeyUp k now) = (k \<noteq> a)"
| "other_key a e = False"

definition unpressed :: "recorder \<Rightarrow> string \<Rightarrow> bool" where
  \<comment> \<open>The recorder is recording, the key is not down, and no record has this key.\<close>
  "unpressed s a = (isRecording s \<and> keyStates s a = None
     \<and> filter (\<lambda>k. k = a) (map key (timings s)) = [])"

definition held :: "recorder \<Rightarrow> string \<Rightarrow> nat \<Rightarrow> bool" where
  \<comment> \<open>The recorder is recording, the key is down, and \<open>n\<close> records have this key.\<close>
  "held s a n = (isRecording s \<and> keyStates s a \<noteq> None
     \<and> length (filter (\<lambda>k. k = a) (map key (timings s))) = n)"

definition keyStates_ok :: "recorder \<Rightarrow> bool" where
  \<comment> \<open>\<^verbatim>\<open>keyStates\<close> holds exactly the keys of the open records, each with its index.\<close>
  "keyStates_ok s =
     ((\<forall>k ks. keyStates s k = Some ks \<longrightarrow>
          ks_index ks < length (timings s)
          \<and> key (timings s ! ks_index ks) = k
          \<and> release_time (timings s ! ks_index ks) = None)
      \<and> (\<forall>i < length (timings s). release_time (timings s ! i) = None \<longrightarrow>
          (\<exists>ks. keyStates s (key (timings s ! i)) = Some ks \<and> ks_index ks = i)))"

definition press_ok :: "recorder \<Rightarrow> real \<Rightarrow> bool" where
  \<comment> \<open>The press times are in order and none is beyond the rounded time elapsed at clock \<open>c\<close>.\<close>
  "press_ok s c =
     (sorted (press_times s)
      \<and> (falsy (startTime s) \<longrightarrow> (\<forall>p \<in> set (press_times s). p \<le> 0))
      \<and> (\<not> falsy (startTime s) \<longrightarrow>
            (\<forall>p \<in> set (press_times s). p \<le> js_round (c - to_number (startTime s)))))"

definition pair_valid :: "keystroke \<times> keystroke \<Rightarrow> bool" where
  \<comment> \<open>The pairs that the comparator's loop counts.\<close>
  "pair_valid p = (key (fst p) = key (snd p) \<and> 0 < dwell (fst p) \<and> 0 < dwell (snd p))"

subsection \<open>Sample payloads\<close>

text \<open>
  Ten keys typed one second apart: the first four (in \<open>two_long\<close>, the first two) held
  for 600 ms, the others for 100 ms.
\<close>

definition four_long :: payload where
  "four_long = \<lparr>password = ''0123456789'',
     keystroke_timings = Some (map (\<lambda>i. \<lparr>key = [''0123456789'' ! i], press_time = 1000 * int i,
        release_time = Some (1000 * int i + (if i < 4 then 600 else 100))\<rparr>) [0..<10]),
     total_time = 10000\<rparr>"

definition two_long :: payload where
  "two_long = \<lparr>password = ''0123456789'',
     keystroke_timings = Some (map (\<lambda>i. \<lparr>key = [''0123456789'' ! i], press_time = 1000 * int i,
        release_time = Some (1000 * int i + (if i < 2 then 600 else 100))\<rparr>) [0..<10]),
     total_time = 10000\<rparr>"

text \<open>Two keys, the second pressed 50 ms before the first is released.\<close>

definition overlapping :: payload where
  "overlapping = \<lparr>password = ''ab'',
     keystroke_timings = Some [\<lparr>key = ''a'', press_time = 0, release_time = Some 100\<rparr>,
                               \<lparr>key = ''b'', press_time = 50, release_time = Some 150\<rparr>],
     total_time = 150\<rparr>"

text \<open>
  Two samples of the password \<open>ab\<close>. In the first the key \<open>b\<close> has a dwell of 0 ms (press
  and release rounded to the same millisecond).
\<close>

definition reference_ab :: "keystroke list" where
  "reference_ab = [\<lparr>key = ''a'', press_time = 0, release_time = Some 80\<rparr>,
                   \<lparr>key = ''b'', press_time = 100, release_time = Some 100\<rparr>]"

definition candidate_ab :: "keystroke list" where
  "candidate_ab = [\<lparr>key = ''a'', press_time = 0, release_time = Some 95\<rparr>,
                   \<lparr>key = ''b'', press_time = 120, release_time = Some 190\<rparr>]"

definition sample_ab :: payload where
  "sample_ab = \<lparr>password = ''ab'', keystroke_timings = Some reference_ab, total_time = 200\<rparr>"

section \<open>Properties of the recorder\<close>

subsection \<open>The handlers, field by field\<close>

lemma timings_onKeyDown:
  "timings (onKeyDown s k now) =
     (if isRecording s \<and> keyStates s k = None
      then timings s @ [\<lparr>key = k,
             press_time = js_round (now - (if falsy (startTime s) then now else to_number (startTime s))),
             release_time = None, index = length (timings s)\<rparr>]
      else timings s)"
  by (simp add: onKeyDown_def Let_def to_number_def)

lemma keyStates_onKeyDown:
  "keyStates (onKeyDown s k now) =
     (if isRecording s \<and> keyStates s k = None
      then (keyStates s)(k \<mapsto> \<lparr>ks_startTime =
               js_round (now - (if falsy (startTime s) then now else to_number (startTime s))),
             ks_index = length (timings s)\<rparr>)
      else keyStates s)"
  by (auto simp add: onKeyDown_def Let_def to_number_def)

lemma isRecording_onKeyDown: "isRecording (onKeyDown s k now) = isRecording s"
  by (simp add: onKeyDown_def Let_def)

lemma timings_onKeyUp:
  "timings (onKeyUp s k now) =
     (case keyStates s k of
        None \<Rightarrow> timings s
      | Some ks \<Rightarrow>
          if isRecording s \<and> ks_index ks < length (timings s)
             \<and> release_time (timings s ! ks_index ks) = None
          then (timings s)[ks_index ks := (timings s ! ks_index ks)
                 \<lparr>release_time := Some (js_round (now - to_number (startTime s)))\<rparr>]
          else timings s)"
  by (simp add: onKeyUp_def Let_def split: option.splits)

lemma keyStates_onKeyUp:
  "keyStates (onKeyUp s k now) = (if isRecording s then (keyStates s)(k := None) else keyStates s)"
  by (auto simp add: onKeyUp_def Let_def split: option.splits)

lemma isRecording_onKeyUp: "isRecording (onKeyUp s k now) = isRecording s"
  by (simp add: onKeyUp_def Let_def split: option.splits)

text \<open>The definitions to unfold when a concrete session is evaluated.\<close>

lemmas recorder_defs = run_def init_def startRecording_def stopRecording_def reset_def
  onKeyDown_def onKeyUp_def exportPayload_def Let_def falsy_def to_number_def

subsection \<open>The open records and \<^verbatim>\<open>keyStates\<close>\<close>

lemma keyStates_ok_init: "keyStates_ok init"
  by (simp add: keyStates_ok_def init_def)

lemma keyStates_ok_onKeyDown:
  assumes "keyStates_ok s"
  shows "keyStates_ok (onKeyDown s k now)"
proof (cases "isRecording s \<and> keyStates s k = None")
  case False
  then have "timings (onKeyDown s k now) = timings s" "keyStates (onKeyDown s k now) = keyStates s"
    by (auto simp add: timings_onKeyDown keyStates_onKeyDown)
  with assms show ?thesis by (simp add: keyStates_ok_def)
next
  case True
  define r where "r = js_round (now - (if falsy (startTime s) then now else to_number (startTime s)))"
  define n where "n = length (timings s)"
  let ?ts = "timings s @ [\<lparr>key = k, press_time = r, release_time = None, index = n\<rparr>]"
  let ?m = "(keyStates s)(k \<mapsto> \<lparr>ks_startTime = r, ks_index = n\<rparr>)"
  have t: "timings (onKeyDown s k now) = ?ts" and m: "keyStates (onKeyDown s k now) = ?m"
    using True by (simp_all add: timings_onKeyDown keyStates_onKeyDown r_def n_def)
  from assms have a1: "\<And>k' ks. keyStates s k' = Some ks \<Longrightarrow>
      ks_index ks < n \<and> key (timings s ! ks_index ks) = k'
      \<and> release_time (timings s ! ks_index ks) = None"
    and a2: "\<And>i. i < n \<Longrightarrow> release_time (timings s ! i) = None \<Longrightarrow>
      \<exists>ks. keyStates s (key (timings s ! i)) = Some ks \<and> ks_index ks = i"
    by (simp_all add: keyStates_ok_def n_def)
  show ?thesis
    unfolding keyStates_ok_def t m
  proof (intro conjI allI impI)
    fix k' ks
    assume h: "?m k' = Some ks"
    have "ks_index ks < length ?ts \<and> key (?ts ! ks_index ks) = k'
        \<and> release_time (?ts ! ks_index ks) = None"
    proof (cases "k' = k")
      case True
      with h have "ks_index ks = n" by auto
      with True show ?thesis by (simp add: n_def)
    next
      case False
      with h have "keyStates s k' = Some ks" by simp
      from a1 [OF this] show ?thesis by (simp add: n_def nth_append)
    qed
    then show "ks_index ks < length ?ts" and "key (?ts ! ks_index ks) = k'"
      and "release_time (?ts ! ks_index ks) = None"
      by simp_all
  next
    fix i
    assume i: "i < length ?ts" and o: "release_time (?ts ! i) = None"
    show "\<exists>ks. ?m (key (?ts ! i)) = Some ks \<and> ks_index ks = i"
    proof (cases "i < n")
      case less: True
      with o have "release_time (timings s ! i) = None" by (simp add: nth_append n_def)
      from a2 [OF less this] obtain ks
        where ks: "keyStates s (key (timings s ! i)) = Some ks" "ks_index ks = i"
        by blast
      with True have "key (timings s ! i) \<noteq> k" by auto
      with ks less show ?thesis by (simp add: nth_append n_def)
    next
      case False
      with i have "i = n" by (simp add: n_def)
      then show ?thesis by (simp add: n_def)
    qed
  qed
qed

lemma keyStates_ok_onKeyUp:
  assumes "keyStates_ok s"
  shows "keyStates_ok (onKeyUp s k now)"
proof (cases "keyStates s k")
  case None
  then have "onKeyUp s k now = s" by (simp add: onKeyUp_def)
  with assms show ?thesis by simp
next
  case (Some ks)
  show ?thesis
  proof (cases "isRecording s")
    case False
    then have "onKeyUp s k now = s" by (simp add: onKeyUp_def)
    with assms show ?thesis by simp
  next
    case True
    define j where "j = ks_index ks"
    define rel where "rel = js_round (now - to_number (startTime s))"
    define ts where "ts = timings s"
    from assms have a1: "\<And>k' ks'. keyStates s k' = Some ks' \<Longrightarrow>
        ks_index ks' < length ts \<and> key (ts ! ks_index ks') = k' \<and> release_time (ts ! ks_index ks') = None"
      and a2: "\<And>i. i < length ts \<Longrightarrow> release_time (ts ! i) = None \<Longrightarrow>
        \<exists>ks'. keyStates s (key (ts ! i)) = Some ks' \<and> ks_index ks' = i"
      by (simp_all add: keyStates_ok_def ts_def)
    from a1 [OF Some] have j: "j < length ts" "key (ts ! j) = k" "release_time (ts ! j) = None"
      by (simp_all add: j_def)
    have t: "timings (onKeyUp s k now) = ts[j := (ts ! j)\<lparr>release_time := Some rel\<rparr>]"
      using Some True j by (simp add: timings_onKeyUp j_def rel_def ts_def)
    have m: "keyStates (onKeyUp s k now) = (keyStates s)(k := None)"
      using True by (simp add: keyStates_onKeyUp)
    show ?thesis
      unfolding keyStates_ok_def t m
    proof (intro conjI allI impI)
      fix k' ks'
      assume h: "((keyStates s)(k := None)) k' = Some ks'"
      then have ne: "k' \<noteq> k" and g: "keyStates s k' = Some ks'"
        by (auto split: if_splits)
      from a1 [OF g] have b: "ks_index ks' < length ts" "key (ts ! ks_index ks') = k'"
          "release_time (ts ! ks_index ks') = None"
        by simp_all
      with j ne have d: "ks_index ks' \<noteq> j" by auto
      from b d show "ks_index ks' < length (ts[j := (ts ! j)\<lparr>release_time := Some rel\<rparr>])"
        and "key (ts[j := (ts ! j)\<lparr>release_time := Some rel\<rparr>] ! ks_index ks') = k'"
        and "release_time (ts[j := (ts ! j)\<lparr>release_time := Some rel\<rparr>] ! ks_index ks') = None"
        by simp_all
    next
      fix i
      assume i: "i < length (ts[j := (ts ! j)\<lparr>release_time := Some rel\<rparr>])"
        and o: "release_time (ts[j := (ts ! j)\<lparr>release_time := Some rel\<rparr>] ! i) = None"
      from i o j have d: "i \<noteq> j" by (auto simp: nth_list_update)
      with i o have b: "i < length ts" "release_time (ts ! i) = None" by simp_all
      from a2 [OF b] obtain ks' where g: "keyStates s (key (ts ! i)) = Some ks'" "ks_index ks' = i"
        by blast
      with Some d have "key (ts ! i) \<noteq> k" by (auto simp: j_def)
      with g d show "\<exists>ks'. ((keyStates s)(k := None)) (key (ts[j := (ts ! j)\<lparr>release_time := Some rel\<rparr>] ! i)) = Some ks'
              \<and> ks_index ks' = i"
        by simp
    qed
  qed
qed

lemma keyStates_ok_step: "keyStates_ok s \<Longrightarrow> keyStates_ok (step s e)"
proof (cases e)
  case (Start now)
  then show ?thesis by (simp add: keyStates_ok_def startRecording_def)
next
  case (Stop v now)
  assume "keyStates_ok s"
  with Stop show ?thesis by (simp add: keyStates_ok_def stopRecording_def Let_def)
next
  case (KeyDown k now)
  assume "keyStates_ok s"
  with KeyDown show ?thesis by (simp add: keyStates_ok_onKeyDown)
next
  case (KeyUp k now)
  assume "keyStates_ok s"
  with KeyUp show ?thesis by (simp add: keyStates_ok_onKeyUp)
next
  case Reset
  then show ?thesis by (simp add: keyStates_ok_def reset_def)
next
  case (Export v now)
  assume "keyStates_ok s"
  with Export show ?thesis by simp
qed

lemma keyStates_ok_foldl: "keyStates_ok s \<Longrightarrow> keyStates_ok (foldl step s evs)"
  by (induction evs arbitrary: s) (simp_all add: keyStates_ok_step)

lemma keyStates_ok_run: "keyStates_ok (run evs)"
  by (simp add: run_def keyStates_ok_foldl keyStates_ok_init)

lemma run_append: "run (evs @ evs') = foldl step (run evs) evs'"
  by (simp add: run_def)

lemma no_open_record_no_keyState:
  assumes "\<not> has_open_record (run evs) k"
  shows "keyStates (run evs) k = None"
proof (rule ccontr)
  assume "keyStates (run evs) k \<noteq> None"
  then obtain ks where ks: "keyStates (run evs) k = Some ks" by blast
  have "keyStates_ok (run evs)" by (rule keyStates_ok_run)
  with ks have "ks_index ks < length (timings (run evs))"
    "key (timings (run evs) ! ks_index ks) = k"
    "release_time (timings (run evs) ! ks_index ks) = None"
    by (simp_all add: keyStates_ok_def)
  then have "has_open_record (run evs) k"
    unfolding has_open_record_def using nth_mem by blast
  with assms show False by simp
qed

lemma keyStates_ok_open:
  assumes "keyStates_ok s" and "i < length (timings s)" and "release_time (timings s ! i) = None"
  shows "\<exists>ks. keyStates s (key (timings s ! i)) = Some ks \<and> ks_index ks = i"
  using assms unfolding keyStates_ok_def by blast

lemma open_record_keyState:
  assumes "has_open_record (run evs) k"
  shows "keyStates (run evs) k \<noteq> None"
proof -
  from assms obtain i where i: "i < length (timings (run evs))"
    and r: "key (timings (run evs) ! i) = k" "release_time (timings (run evs) ! i) = None"
    by (auto simp: has_open_record_def in_set_conv_nth)
  from keyStates_ok_open [OF keyStates_ok_run i r(2)] r(1) show ?thesis by auto
qed

subsection \<open>Unmatched release\<close>

text \<open>
  Claim C7. In every state the recorder can reach, a release of a key that has no open
  record (no record of that key whose \<^verbatim>\<open>release_time\<close> is \<^verbatim>\<open>null\<close>) leaves the list of
  records as it was: nothing is appended and no record is changed. The whole state of the
  recorder is in fact unchanged.
\<close>

theorem unmatched_release_is_noop:
  assumes "\<not> has_open_record (run evs) k"
  shows "timings (onKeyUp (run evs) k now) = timings (run evs) \<and> onKeyUp (run evs) k now = run evs"
proof -
  from assms have "keyStates (run evs) k = None" by (rule no_open_record_no_keyState)
  then have "onKeyUp (run evs) k now = run evs" by (simp add: onKeyUp_def)
  then show ?thesis by simp
qed

theorem unmatched_release_is_noop_witness:
  "\<not> has_open_record (run [Start 1000, KeyDown ''a'' 1010, KeyUp ''a'' 1090, KeyDown ''b'' 1100]) ''a''
   \<and> timings (onKeyUp (run [Start 1000, KeyDown ''a'' 1010, KeyUp ''a'' 1090, KeyDown ''b'' 1100]) ''a'' 1200)
       = timings (run [Start 1000, KeyDown ''a'' 1010, KeyUp ''a'' 1090, KeyDown ''b'' 1100])
   \<and> onKeyUp (run [Start 1000, KeyDown ''a'' 1010, KeyUp ''a'' 1090, KeyDown ''b'' 1100]) ''a'' 1200
       = run [Start 1000, KeyDown ''a'' 1010, KeyUp ''a'' 1090, KeyDown ''b'' 1100]"
proof -
  have h: "\<not> has_open_record (run [Start 1000, KeyDown ''a'' 1010, KeyUp ''a'' 1090, KeyDown ''b'' 1100]) ''a''"
    by (simp add: has_open_record_def recorder_defs)
  from unmatched_release_is_noop [OF h, of 1200] h show ?thesis by simp
qed

subsection \<open>Key-repeat suppression\<close>

lemma keys_onKeyUp: "map key (timings (onKeyUp s k now)) = map key (timings s)"
  by (simp add: timings_onKeyUp map_update list_update_same_conv split: option.splits)

lemma keys_onKeyDown:
  "map key (timings (onKeyDown s k now)) =
     (if isRecording s \<and> keyStates s k = None then map key (timings s) @ [k] else map key (timings s))"
  by (simp add: timings_onKeyDown)

lemma length_records_for:
  "length (records_for s a) = length (filter (\<lambda>k. k = a) (map key (timings s)))"
  by (simp add: records_for_def filter_map comp_def)

lemma held_other: "held s a n \<Longrightarrow> other_key a e \<Longrightarrow> held (step s e) a n"
  by (cases e)
    (auto simp: held_def isRecording_onKeyDown isRecording_onKeyUp keyStates_onKeyDown
       keyStates_onKeyUp keys_onKeyDown keys_onKeyUp)

lemma held_others: "held s a n \<Longrightarrow> list_all (other_key a) evs \<Longrightarrow> held (foldl step s evs) a n"
  by (induction evs arbitrary: s) (simp_all add: held_other)

lemma held_repeat: "held s a n \<Longrightarrow> held (onKeyDown s a now) a n"
  by (auto simp: held_def isRecording_onKeyDown keyStates_onKeyDown keys_onKeyDown)

lemma unpressed_start: "unpressed (startRecording s t0) a"
  by (simp add: unpressed_def startRecording_def)

lemma unpressed_other: "unpressed s a \<Longrightarrow> other_key a e \<Longrightarrow> unpressed (step s e) a"
  by (cases e)
    (auto simp: unpressed_def isRecording_onKeyDown isRecording_onKeyUp keyStates_onKeyDown
       keyStates_onKeyUp keys_onKeyDown keys_onKeyUp)

lemma unpressed_others:
  "unpressed s a \<Longrightarrow> list_all (other_key a) evs \<Longrightarrow> unpressed (foldl step s evs) a"
  by (induction evs arbitrary: s) (simp_all add: unpressed_other)

lemma held_first: "unpressed s a \<Longrightarrow> held (onKeyDown s a now) a 1"
  by (simp add: unpressed_def held_def isRecording_onKeyDown keyStates_onKeyDown keys_onKeyDown)

lemma held_release:
  "held s a n \<Longrightarrow> length (records_for (onKeyUp s a now) a) = n \<and> keyStates (onKeyUp s a now) a = None"
  by (simp add: held_def length_records_for keys_onKeyUp keyStates_onKeyUp)

lemma repeated_press_effect:
  assumes "keyStates s k \<noteq> None"
  shows "onKeyDown s k now =
     (if isRecording s \<and> falsy (startTime s) then s\<lparr>startTime := Some now\<rparr> else s)"
  using assms by (simp add: onKeyDown_def Let_def)

text \<open>
  Claim C3. In every state the recorder can reach, a press of a key that has an open
  record creates no record: the list of records is unchanged, and the only possible
  effect on the state is the lazy setting of \<^verbatim>\<open>startTime\<close> when it is still falsy (a
  recorder that is not recording ignores every press). In particular, in a session
  started afresh, Press(a), Press(a), Press(a), Release(a) with any presses and releases
  of other keys before and in between leaves exactly one record for \<open>a\<close>, and that record
  is closed.
\<close>

theorem key_repeat_suppression:
  "(has_open_record (run evs) k \<longrightarrow>
      timings (onKeyDown (run evs) k now) = timings (run evs)
      \<and> onKeyDown (run evs) k now =
          (if isRecording (run evs) \<and> falsy (startTime (run evs))
           then (run evs)\<lparr>startTime := Some now\<rparr> else run evs))
   \<and> (list_all (other_key a) o0 \<and> list_all (other_key a) o1 \<and> list_all (other_key a) o2
        \<and> list_all (other_key a) o3 \<longrightarrow>
      length (records_for (run (pre @ [Start t0] @ o0 @ [KeyDown a t1] @ o1 @ [KeyDown a t2] @ o2
                @ [KeyDown a t3] @ o3 @ [KeyUp a t4])) a) = 1
      \<and> \<not> has_open_record (run (pre @ [Start t0] @ o0 @ [KeyDown a t1] @ o1 @ [KeyDown a t2] @ o2
                @ [KeyDown a t3] @ o3 @ [KeyUp a t4])) a)"
proof (intro conjI impI)
  assume "has_open_record (run evs) k"
  then have ks: "keyStates (run evs) k \<noteq> None" by (rule open_record_keyState)
  from repeated_press_effect [OF ks]
  show e: "onKeyDown (run evs) k now =
          (if isRecording (run evs) \<and> falsy (startTime (run evs))
           then (run evs)\<lparr>startTime := Some now\<rparr> else run evs)" .
  then show "timings (onKeyDown (run evs) k now) = timings (run evs)" by simp
next
  let ?evs = "pre @ [Start t0] @ o0 @ [KeyDown a t1] @ o1 @ [KeyDown a t2] @ o2
                @ [KeyDown a t3] @ o3 @ [KeyUp a t4]"
  define s0 where "s0 = foldl step (startRecording (run pre) t0) o0"
  define s3 where "s3 = foldl step (onKeyDown (foldl step (onKeyDown (foldl step
      (onKeyDown s0 a t1) o1) a t2) o2) a t3) o3"
  assume o: "list_all (other_key a) o0 \<and> list_all (other_key a) o1 \<and> list_all (other_key a) o2
        \<and> list_all (other_key a) o3"
  have f: "run ?evs = onKeyUp s3 a t4"
    by (simp add: s3_def s0_def run_def)
  have "unpressed s0 a"
    unfolding s0_def using o by (intro unpressed_others unpressed_start) simp
  then have "held s3 a 1"
    unfolding s3_def using o
    by (intro held_others held_repeat held_first) simp_all
  then have r: "length (records_for (run ?evs) a) = 1" "keyStates (run ?evs) a = None"
    unfolding f by (simp_all add: held_release)
  from r(1) show "length (records_for (run ?evs) a) = 1" .
  from r(2) open_record_keyState [of ?evs a]
  show "\<not> has_open_record (run ?evs) a"
    by blast
qed

theorem key_repeat_suppression_witness:
  "has_open_record (run [Start 1000, KeyDown ''a'' 1010, KeyDown ''b'' 1050]) ''a''
   \<and> timings (onKeyDown (run [Start 1000, KeyDown ''a'' 1010, KeyDown ''b'' 1050]) ''a'' 1100)
       = timings (run [Start 1000, KeyDown ''a'' 1010, KeyDown ''b'' 1050])
   \<and> list_all (other_key ''a'') [KeyDown ''x'' 1005]
   \<and> list_all (other_key ''a'') [KeyDown ''b'' 1050]
   \<and> list_all (other_key ''a'') [KeyDown ''c'' 1120, KeyUp ''b'' 1130]
   \<and> list_all (other_key ''a'') []
   \<and> length (records_for (run ([] @ [Start 1000] @ [KeyDown ''x'' 1005] @ [KeyDown ''a'' 1010]
         @ [KeyDown ''b'' 1050] @ [KeyDown ''a'' 1100] @ [KeyDown ''c'' 1120, KeyUp ''b'' 1130]
         @ [KeyDown ''a'' 1140] @ [] @ [KeyUp ''a'' 1200])) ''a'') = 1"
proof -
  have h: "has_open_record (run [Start 1000, KeyDown ''a'' 1010, KeyDown ''b'' 1050]) ''a''"
    by (simp add: has_open_record_def recorder_defs)
  have o: "list_all (other_key ''a'') [KeyDown ''x'' 1005]
      \<and> list_all (other_key ''a'') [KeyDown ''b'' 1050]
      \<and> list_all (other_key ''a'') [KeyDown ''c'' 1120, KeyUp ''b'' 1130]
      \<and> list_all (other_key ''a'') []"
    by simp
  from key_repeat_suppression [of "[Start 1000, KeyDown ''a'' 1010, KeyDown ''b'' 1050]" "''a''" 1100
      "''a''" "[KeyDown ''x'' 1005]" "[KeyDown ''b'' 1050]" "[KeyDown ''c'' 1120, KeyUp ''b'' 1130]"
      "[]" "[]" 1000 1010 1100 1140 1200]
    h o
  show ?thesis by blast
qed

subsection \<open>Press times are in order under a monotonic clock\<close>

lemma js_round_mono: "x \<le> y \<Longrightarrow> js_round x \<le> js_round y"
  by (simp add: js_round_def floor_mono)

lemma js_round_0: "js_round 0 = 0"
  by (simp add: js_round_def)

lemma press_ok_later:
  assumes "press_ok s c" and "c \<le> t"
  shows "press_ok s t"
proof -
  have "js_round (c - to_number (startTime s)) \<le> js_round (t - to_number (startTime s))"
    using assms(2) by (intro js_round_mono) simp
  with assms(1) show ?thesis
    unfolding press_ok_def by fastforce
qed

lemma press_times_onKeyUp: "press_times (onKeyUp s k now) = press_times s"
  by (simp add: press_times_def timings_onKeyUp map_update list_update_same_conv split: option.splits)

lemma startTime_onKeyUp: "startTime (onKeyUp s k now) = startTime s"
  by (simp add: onKeyUp_def Let_def split: option.splits)

lemma press_ok_onKeyUp: "press_ok s c \<Longrightarrow> press_ok (onKeyUp s k now) c"
  by (simp add: press_ok_def press_times_onKeyUp startTime_onKeyUp)

lemma startTime_onKeyDown:
  "startTime (onKeyDown s k now) =
     (if isRecording s \<and> falsy (startTime s) then Some now else startTime s)"
  by (simp add: onKeyDown_def Let_def)

lemma press_times_onKeyDown:
  "press_times (onKeyDown s k now) =
     (if isRecording s \<and> keyStates s k = None
      then press_times s @ [js_round (now - (if falsy (startTime s) then now else to_number (startTime s)))]
      else press_times s)"
  by (simp add: press_times_def timings_onKeyDown)

lemma press_ok_onKeyDown:
  assumes "press_ok s c" and "c \<le> t"
  shows "press_ok (onKeyDown s k t) t"
proof (cases "isRecording s")
  case False
  then have "onKeyDown s k t = s" by (simp add: onKeyDown_def)
  with assms show ?thesis by (simp add: press_ok_later)
next
  case rec: True
  from assms have l: "press_ok s t" by (rule press_ok_later)
  show ?thesis
  proof (cases "falsy (startTime s)")
    case True
    with l have z: "\<forall>p \<in> set (press_times s). p \<le> 0" and so: "sorted (press_times s)"
      by (simp_all add: press_ok_def)
    have st: "startTime (onKeyDown s k t) = Some t"
      using rec True by (simp add: startTime_onKeyDown)
    have pt: "press_times (onKeyDown s k t) = press_times s
        \<or> press_times (onKeyDown s k t) = press_times s @ [0]"
      using True by (simp add: press_times_onKeyDown js_round_0)
    from pt z so have "sorted (press_times (onKeyDown s k t))
        \<and> (\<forall>p \<in> set (press_times (onKeyDown s k t)). p \<le> 0)"
      by (auto simp: sorted_append)
    then show ?thesis
      by (simp add: press_ok_def st to_number_def js_round_0)
  next
    case False
    with l have b: "\<forall>p \<in> set (press_times s). p \<le> js_round (t - to_number (startTime s))"
      and so: "sorted (press_times s)"
      by (simp_all add: press_ok_def)
    have st: "startTime (onKeyDown s k t) = startTime s"
      using False by (simp add: startTime_onKeyDown)
    have pt: "press_times (onKeyDown s k t) = press_times s
        \<or> press_times (onKeyDown s k t) = press_times s @ [js_round (t - to_number (startTime s))]"
      using False by (simp add: press_times_onKeyDown)
    from pt b so have "sorted (press_times (onKeyDown s k t))
        \<and> (\<forall>p \<in> set (press_times (onKeyDown s k t)). p \<le> js_round (t - to_number (startTime s)))"
      by (auto simp: sorted_append)
    with False show ?thesis
      by (simp add: press_ok_def st)
  qed
qed

lemma press_ok_empty: "timings s = [] \<Longrightarrow> press_ok s c"
  by (simp add: press_ok_def press_times_def)

lemma press_ok_foldl:
  assumes "press_ok s c" and "sorted (c # clocks evs)"
  shows "\<exists>c'. press_ok (foldl step s evs) c'"
  using assms
proof (induction evs arbitrary: s c)
  case Nil
  then show ?case by auto
next
  case (Cons e evs)
  show ?case
  proof (cases e)
    case (Start t)
    have "press_ok (step s e) t" using Start by (simp add: press_ok_empty startRecording_def)
    moreover have "sorted (t # clocks evs)" using Cons.prems(2) Start by (simp add: clocks_def)
    ultimately show ?thesis using Cons.IH by simp
  next
    case (Stop v t)
    have "press_ok (step s e) c" using Stop Cons.prems(1)
      by (simp add: press_ok_def press_times_def stopRecording_def Let_def)
    moreover have "sorted (c # clocks evs)" using Cons.prems(2) Stop by (simp add: clocks_def)
    ultimately show ?thesis using Cons.IH by simp
  next
    case (KeyDown k t)
    have "c \<le> t" using Cons.prems(2) KeyDown by (simp add: clocks_def)
    then have "press_ok (step s e) t" using KeyDown Cons.prems(1) by (simp add: press_ok_onKeyDown)
    moreover have "sorted (t # clocks evs)" using Cons.prems(2) KeyDown by (simp add: clocks_def)
    ultimately show ?thesis using Cons.IH by simp
  next
    case (KeyUp k t)
    have "press_ok (step s e) c" using KeyUp Cons.prems(1) by (simp add: press_ok_onKeyUp)
    moreover have "sorted (c # clocks evs)" using Cons.prems(2) KeyUp by (simp add: clocks_def)
    ultimately show ?thesis using Cons.IH by simp
  next
    case Reset
    have "press_ok (step s e) c" using Reset by (simp add: press_ok_empty reset_def)
    moreover have "sorted (c # clocks evs)" using Cons.prems(2) Reset by (simp add: clocks_def)
    ultimately show ?thesis using Cons.IH by simp
  next
    case (Export v t)
    have "press_ok (step s e) c" using Export Cons.prems(1) by simp
    moreover have "sorted (c # clocks evs)" using Cons.prems(2) Export by (simp add: clocks_def)
    ultimately show ?thesis using Cons.IH by simp
  qed
qed

lemma sorted_hd_cons: "sorted xs \<Longrightarrow> sorted ((case xs of [] \<Rightarrow> 0 | x # _ \<Rightarrow> x) # xs)"
  for xs :: "real list"
  by (cases xs) simp_all

text \<open>
  Claim C10. In every state reached by a sequence of calls whose clock readings are
  non-decreasing, the \<^verbatim>\<open>press_time\<close> values of the records are non-decreasing in list
  order, and so are those of the exported \<^verbatim>\<open>keystroke_timings\<close>.
\<close>

theorem press_times_nondecreasing:
  assumes "sorted (clocks evs)"
  shows "sorted (map press_time (timings (run evs)))
     \<and> (\<exists>ts. keystroke_timings (exportPayload (run evs) v now) = Some ts
            \<and> sorted (map press_time ts))"
proof -
  have "press_ok init (case clocks evs of [] \<Rightarrow> 0 | x # _ \<Rightarrow> x)"
    by (simp add: press_ok_empty init_def)
  from press_ok_foldl [OF this sorted_hd_cons [OF assms]]
  obtain c' where "press_ok (run evs) c'" by (auto simp: run_def)
  then have s: "sorted (map press_time (timings (run evs)))"
    by (simp add: press_ok_def press_times_def)
  have "map press_time (map (\<lambda>t. \<lparr>key = key t, press_time = press_time t, release_time = release_time t\<rparr>)
           (filter (\<lambda>t. release_time t \<noteq> None) (timings (run evs))))
        = filter (\<lambda>p. True) (map press_time (filter (\<lambda>t. release_time t \<noteq> None) (timings (run evs))))"
    by (simp add: comp_def)
  moreover have "sorted (map press_time (filter (\<lambda>t. release_time t \<noteq> None) (timings (run evs))))"
    using s by (rule sorted_filter)
  ultimately show ?thesis
    using s by (simp add: exportPayload_def Let_def comp_def)
qed

theorem press_times_nondecreasing_witness:
  "sorted (clocks [Start 1000, KeyDown ''a'' 1010, KeyDown ''b'' 1050, KeyUp ''a'' 1090,
       KeyUp ''b'' 1130, Stop ''ab'' 1200])
   \<and> sorted (map press_time (timings (run [Start 1000, KeyDown ''a'' 1010, KeyDown ''b'' 1050,
       KeyUp ''a'' 1090, KeyUp ''b'' 1130, Stop ''ab'' 1200])))
   \<and> (\<exists>ts. keystroke_timings (exportPayload (run [Start 1000, KeyDown ''a'' 1010,
       KeyDown ''b'' 1050, KeyUp ''a'' 1090, KeyUp ''b'' 1130, Stop ''ab'' 1200]) ''ab'' 1300) = Some ts
         \<and> sorted (map press_time ts))"
proof -
  have h: "sorted (clocks [Start 1000, KeyDown ''a'' 1010, KeyDown ''b'' 1050, KeyUp ''a'' 1090,
       KeyUp ''b'' 1130, Stop ''ab'' 1200])"
    by (simp add: clocks_def)
  from press_times_nondecreasing [OF h, of "''ab''" 1300] h show ?thesis by blast
qed

subsection \<open>What an export contains\<close>

lemma closed_count_onKeyDown: "closed_count (onKeyDown s k now) = closed_count s"
  by (simp add: closed_count_def timings_onKeyDown)

lemma closed_count_update:
  assumes "j < length xs" and "release_time (xs ! j) = None"
  shows "length (filter (\<lambda>t. release_time t \<noteq> None) (xs[j := (xs ! j)\<lparr>release_time := Some r\<rparr>]))
     = Suc (length (filter (\<lambda>t. release_time t \<noteq> None) xs))"
proof -
  define a where "a = take j xs"
  define b where "b = drop (Suc j) xs"
  define x where "x = xs ! j"
  have xs: "xs = a @ x # b"
    unfolding a_def b_def x_def using assms(1) by (simp add: id_take_nth_drop)
  have x: "release_time x = None"
    using assms(2) by (simp add: x_def)
  have "xs[j := x\<lparr>release_time := Some r\<rparr>] = a @ x\<lparr>release_time := Some r\<rparr> # b"
    unfolding a_def b_def using assms(1) by (simp add: upd_conv_take_nth_drop)
  then have "length (filter (\<lambda>t. release_time t \<noteq> None) (xs[j := x\<lparr>release_time := Some r\<rparr>]))
      = Suc (length (filter (\<lambda>t. release_time t \<noteq> None) a)
          + length (filter (\<lambda>t. release_time t \<noteq> None) b))"
    by simp
  moreover have "length (filter (\<lambda>t. release_time t \<noteq> None) xs)
      = length (filter (\<lambda>t. release_time t \<noteq> None) a)
        + length (filter (\<lambda>t. release_time t \<noteq> None) b)"
    by (subst xs) (simp add: x)
  ultimately show ?thesis by (simp add: x_def)
qed

lemma closed_count_onKeyUp:
  assumes "keyStates_ok s" and "isRecording s" and "k \<in> dom (keyStates s)"
  shows "closed_count (onKeyUp s k now) = Suc (closed_count s)"
proof -
  from assms(3) obtain ks where ks: "keyStates s k = Some ks" by auto
  with assms(1) have j: "ks_index ks < length (timings s)"
    "release_time (timings s ! ks_index ks) = None"
    by (simp_all add: keyStates_ok_def)
  from ks assms(2) j have "timings (onKeyUp s k now) = (timings s)[ks_index ks :=
      (timings s ! ks_index ks)\<lparr>release_time := Some (js_round (now - to_number (startTime s)))\<rparr>]"
    by (simp add: timings_onKeyUp)
  then show ?thesis
    unfolding closed_count_def using closed_count_update [OF j] by simp
qed

lemma dom_onKeyDown:
  "isRecording s \<Longrightarrow> dom (keyStates (onKeyDown s k now)) = insert k (dom (keyStates s))"
  by (auto simp: keyStates_onKeyDown)

lemma dom_onKeyUp:
  "isRecording s \<Longrightarrow> dom (keyStates (onKeyUp s k now)) = dom (keyStates s) - {k}"
  by (auto simp: keyStates_onKeyUp)

lemma startRecording_fresh:
  "keyStates_ok (startRecording s now)" "isRecording (startRecording s now)"
  "dom (keyStates (startRecording s now)) = {}" "closed_count (startRecording s now) = 0"
  "timings (startRecording s now) = []"
  by (simp_all add: startRecording_def keyStates_ok_def closed_count_def)

lemma length_timings_onKeyUp: "length (timings (onKeyUp s k now)) = length (timings s)"
  by (simp add: timings_onKeyUp split: option.splits)

lemma length_timings_onKeyDown:
  "isRecording s \<Longrightarrow> k \<notin> dom (keyStates s) \<Longrightarrow>
     length (timings (onKeyDown s k now)) = Suc (length (timings s))"
  by (auto simp: timings_onKeyDown)

lemma press_fresh:
  assumes "isRecording s" and "k \<notin> dom (keyStates s)"
  shows "isRecording (onKeyDown s k now)"
    and "dom (keyStates (onKeyDown s k now)) = insert k (dom (keyStates s))"
    and "length (timings (onKeyDown s k now)) = Suc (length (timings s))"
  using assms by (simp_all add: isRecording_onKeyDown dom_onKeyDown length_timings_onKeyDown)

lemma five_pressed:
  assumes "distinct [k1, k2, k3, k4, k5]"
  shows "length (timings (onKeyDown (onKeyDown (onKeyDown (onKeyDown (onKeyDown
      (startRecording s t0) k1 t1) k2 t2) k3 t3) k4 t4) k5 t5)) = 5"
proof -
  define s0 where "s0 = startRecording s t0"
  define s1 where "s1 = onKeyDown s0 k1 t1"
  define s2 where "s2 = onKeyDown s1 k2 t2"
  define s3 where "s3 = onKeyDown s2 k3 t3"
  define s4 where "s4 = onKeyDown s3 k4 t4"
  have p0: "isRecording s0" "dom (keyStates s0) = {}" "length (timings s0) = 0"
    by (simp_all add: s0_def startRecording_fresh)
  have "k1 \<notin> dom (keyStates s0)" using p0 by simp
  from press_fresh [OF p0(1) this, of t1] p0
  have p1: "isRecording s1" "dom (keyStates s1) = {k1}" "length (timings s1) = 1"
    by (simp_all add: s1_def)
  have "k2 \<notin> dom (keyStates s1)" using p1 assms by auto
  from press_fresh [OF p1(1) this, of t2] p1
  have p2: "isRecording s2" "dom (keyStates s2) = {k2, k1}" "length (timings s2) = 2"
    by (simp_all add: s2_def)
  have "k3 \<notin> dom (keyStates s2)" using p2 assms by auto
  from press_fresh [OF p2(1) this, of t3] p2
  have p3: "isRecording s3" "dom (keyStates s3) = {k3, k2, k1}" "length (timings s3) = 3"
    by (simp_all add: s3_def)
  have "k4 \<notin> dom (keyStates s3)" using p3 assms by auto
  from press_fresh [OF p3(1) this, of t4] p3
  have p4: "isRecording s4" "dom (keyStates s4) = {k4, k3, k2, k1}" "length (timings s4) = 4"
    by (simp_all add: s4_def)
  have "k5 \<notin> dom (keyStates s4)" using p4 assms by auto
  from press_fresh [OF p4(1) this, of t5] p4
  have "length (timings (onKeyDown s4 k5 t5)) = 5"
    by simp
  then show ?thesis by (simp add: s4_def s3_def s2_def s1_def s0_def)
qed

lemma closed_five_four:
  assumes "distinct [k1, k2, k3, k4, k5]"
  shows "closed_count (run (pre @ [Start t0, KeyDown k1 t1, KeyDown k2 t2, KeyDown k3 t3,
            KeyDown k4 t4, KeyDown k5 t5, KeyUp k1 u1, KeyUp k2 u2, KeyUp k3 u3, KeyUp k4 u4])) = 4
     \<and> length (timings (run (pre @ [Start t0, KeyDown k1 t1, KeyDown k2 t2, KeyDown k3 t3,
            KeyDown k4 t4, KeyDown k5 t5, KeyUp k1 u1, KeyUp k2 u2, KeyUp k3 u3, KeyUp k4 u4]))) = 5"
proof -
  define s5 where "s5 = onKeyDown (onKeyDown (onKeyDown (onKeyDown (onKeyDown
      (startRecording (run pre) t0) k1 t1) k2 t2) k3 t3) k4 t4) k5 t5"
  have ok: "keyStates_ok s5" and rec: "isRecording s5" and c: "closed_count s5 = 0"
    and d: "dom (keyStates s5) = {k1, k2, k3, k4, k5}"
    unfolding s5_def
    by (auto simp: closed_count_onKeyDown dom_onKeyDown startRecording_fresh
        keyStates_ok_onKeyDown isRecording_onKeyDown)
  define s6 where "s6 = onKeyUp s5 k1 u1"
  have ok6: "keyStates_ok s6" and rec6: "isRecording s6" and c6: "closed_count s6 = 1"
    and d6: "dom (keyStates s6) = {k1, k2, k3, k4, k5} - {k1}"
    unfolding s6_def using ok rec c d
    by (simp_all add: closed_count_onKeyUp dom_onKeyUp keyStates_ok_onKeyUp isRecording_onKeyUp)
  define s7 where "s7 = onKeyUp s6 k2 u2"
  have ok7: "keyStates_ok s7" and rec7: "isRecording s7" and c7: "closed_count s7 = 2"
    and d7: "dom (keyStates s7) = {k1, k2, k3, k4, k5} - {k1} - {k2}"
    unfolding s7_def using ok6 rec6 c6 d6 assms
    by (simp_all add: closed_count_onKeyUp dom_onKeyUp keyStates_ok_onKeyUp isRecording_onKeyUp)
  define s8 where "s8 = onKeyUp s7 k3 u3"
  have ok8: "keyStates_ok s8" and rec8: "isRecording s8" and c8: "closed_count s8 = 3"
    and d8: "dom (keyStates s8) = {k1, k2, k3, k4, k5} - {k1} - {k2} - {k3}"
    unfolding s8_def using ok7 rec7 c7 d7 assms
    by (simp_all add: closed_count_onKeyUp dom_onKeyUp keyStates_ok_onKeyUp isRecording_onKeyUp)
  have "closed_count (onKeyUp s8 k4 u4) = 4"
    using ok8 rec8 c8 d8 assms
    by (simp add: closed_count_onKeyUp)
  moreover have "length (timings (onKeyUp s8 k4 u4)) = 5"
    using five_pressed [OF assms, of "run pre" t0 t1 t2 t3 t4 t5]
    by (simp add: length_timings_onKeyUp s8_def s7_def s6_def s5_def)
  ultimately show ?thesis
    by (simp add: run_append s8_def s7_def s6_def s5_def)
qed

lemma export_length:
  "\<exists>ts. keystroke_timings (exportPayload s v now) = Some ts
      \<and> map (\<lambda>e. (key e, press_time e, release_time e)) ts
          = map (\<lambda>t. (key t, press_time t, release_time t))
              (filter (\<lambda>t. release_time t \<noteq> None) (timings s))
      \<and> length ts = closed_count s"
  by (simp add: exportPayload_def Let_def closed_count_def comp_def)

text \<open>
  Claim C6. The \<^verbatim>\<open>keystroke_timings\<close> of an export are the records whose \<^verbatim>\<open>release_time\<close>
  is set, with their key and times, in the order of the records, and nothing else. A
  session of five presses (of five different keys, so that each makes a record) of which
  four are released has five records and exports four entries.
\<close>

theorem export_filters_open_records:
  "(\<exists>ts. keystroke_timings (exportPayload s v now) = Some ts
      \<and> map (\<lambda>e. (key e, press_time e, release_time e)) ts
          = map (\<lambda>t. (key t, press_time t, release_time t))
              (filter (\<lambda>t. release_time t \<noteq> None) (timings s)))
   \<and> (distinct [k1, k2, k3, k4, k5] \<longrightarrow>
        (\<exists>ts. keystroke_timings (exportPayload
            (run (pre @ [Start t0, KeyDown k1 t1, KeyDown k2 t2, KeyDown k3 t3, KeyDown k4 t4,
               KeyDown k5 t5, KeyUp k1 u1, KeyUp k2 u2, KeyUp k3 u3, KeyUp k4 u4])) v now) = Some ts
          \<and> length ts = 4)
        \<and> length (timings (run (pre @ [Start t0, KeyDown k1 t1, KeyDown k2 t2, KeyDown k3 t3,
               KeyDown k4 t4, KeyDown k5 t5, KeyUp k1 u1, KeyUp k2 u2, KeyUp k3 u3, KeyUp k4 u4]))) = 5)"
proof (intro conjI impI)
  show "\<exists>ts. keystroke_timings (exportPayload s v now) = Some ts
      \<and> map (\<lambda>e. (key e, press_time e, release_time e)) ts
          = map (\<lambda>t. (key t, press_time t, release_time t))
              (filter (\<lambda>t. release_time t \<noteq> None) (timings s))"
    using export_length [of s v now] by blast
next
  assume d: "distinct [k1, k2, k3, k4, k5]"
  from closed_five_four [OF d, of pre t0 t1 t2 t3 t4 t5 u1 u2 u3 u4] export_length
  show "\<exists>ts. keystroke_timings (exportPayload
            (run (pre @ [Start t0, KeyDown k1 t1, KeyDown k2 t2, KeyDown k3 t3, KeyDown k4 t4,
               KeyDown k5 t5, KeyUp k1 u1, KeyUp k2 u2, KeyUp k3 u3, KeyUp k4 u4])) v now) = Some ts
          \<and> length ts = 4"
    by metis
  from closed_five_four [OF d, of pre t0 t1 t2 t3 t4 t5 u1 u2 u3 u4]
  show "length (timings (run (pre @ [Start t0, KeyDown k1 t1, KeyDown k2 t2, KeyDown k3 t3,
               KeyDown k4 t4, KeyDown k5 t5, KeyUp k1 u1, KeyUp k2 u2, KeyUp k3 u3, KeyUp k4 u4]))) = 5"
    by blast
qed

theorem export_filters_open_records_witness:
  "distinct [''p'', ''a'', ''s'', ''w'', ''d'']
   \<and> (\<exists>ts. keystroke_timings (exportPayload
          (run ([] @ [Start 1000, KeyDown ''p'' 1010, KeyDown ''a'' 1020, KeyDown ''s'' 1030,
             KeyDown ''w'' 1040, KeyDown ''d'' 1050, KeyUp ''p'' 1060, KeyUp ''a'' 1070,
             KeyUp ''s'' 1080, KeyUp ''w'' 1090])) ''paswd'' 1100) = Some ts
        \<and> length ts = 4)"
proof -
  have d: "distinct [''p'', ''a'', ''s'', ''w'', ''d'']" by simp
  from export_filters_open_records [of init "''paswd''" 1100 "''p''" "''a''" "''s''" "''w''" "''d''" "[]"
      1000 1010 1020 1030 1040 1050 1060 1070 1080 1090] d
  show ?thesis by blast
qed

subsection \<open>Exporting a stopped session\<close>

text \<open>
  Claim C1 says that on a stopped session every later export returns the identical
  payload. The code reads the clock and the input at every export: a session started at
  1000 and stopped at 1100 exports \<^verbatim>\<open>total_time\<close> 100, and the export made at 1250 on the
  same stopped session says 250; the password is whatever the input holds at the call.
\<close>

theorem stopped_export_counterexample:
  "\<not> isRecording (fst (stopRecording (run [Start 1000, KeyDown ''a'' 1010, KeyUp ''a'' 1090]) ''a'' 1100))
   \<and> snd (stopRecording (run [Start 1000, KeyDown ''a'' 1010, KeyUp ''a'' 1090]) ''a'' 1100)
     \<noteq> exportPayload (fst (stopRecording (run [Start 1000, KeyDown ''a'' 1010, KeyUp ''a'' 1090])
          ''a'' 1100)) ''a'' 1250
   \<and> total_time (snd (stopRecording (run [Start 1000, KeyDown ''a'' 1010, KeyUp ''a'' 1090]) ''a'' 1100))
     = 100
   \<and> total_time (exportPayload (fst (stopRecording (run [Start 1000, KeyDown ''a'' 1010,
          KeyUp ''a'' 1090]) ''a'' 1100)) ''a'' 1250) = 250
   \<and> password (exportPayload (fst (stopRecording (run [Start 1000, KeyDown ''a'' 1010,
          KeyUp ''a'' 1090]) ''a'' 1100)) ''ab'' 1250) = ''ab''"
proof -
  have a: "total_time (snd (stopRecording (run [Start 1000, KeyDown ''a'' 1010, KeyUp ''a'' 1090])
      ''a'' 1100)) = 100"
    by (simp add: recorder_defs js_round_def)
  have b: "total_time (exportPayload (fst (stopRecording (run [Start 1000, KeyDown ''a'' 1010,
          KeyUp ''a'' 1090]) ''a'' 1100)) ''a'' 1250) = 250"
    by (simp add: recorder_defs js_round_def)
  have c: "password (exportPayload (fst (stopRecording (run [Start 1000, KeyDown ''a'' 1010,
          KeyUp ''a'' 1090]) ''a'' 1100)) ''ab'' 1250) = ''ab''"
    by (simp add: recorder_defs)
  have d: "\<not> isRecording (fst (stopRecording (run [Start 1000, KeyDown ''a'' 1010, KeyUp ''a'' 1090])
      ''a'' 1100))"
    by (simp add: stopRecording_def Let_def)
  have "snd (stopRecording (run [Start 1000, KeyDown ''a'' 1010, KeyUp ''a'' 1090]) ''a'' 1100)
     \<noteq> exportPayload (fst (stopRecording (run [Start 1000, KeyDown ''a'' 1010, KeyUp ''a'' 1090])
          ''a'' 1100)) ''a'' 1250"
  proof
    assume "snd (stopRecording (run [Start 1000, KeyDown ''a'' 1010, KeyUp ''a'' 1090]) ''a'' 1100)
     = exportPayload (fst (stopRecording (run [Start 1000, KeyDown ''a'' 1010, KeyUp ''a'' 1090])
          ''a'' 1100)) ''a'' 1250"
    with a b show False by simp
  qed
  with a b c d show ?thesis by blast
qed

text \<open>
  Claim C1, as the code has it. On a session that is not recording, a stop and an export
  leave the state as it was, key events are ignored, and every export returns the same
  \<^verbatim>\<open>keystroke_timings\<close>; \<^verbatim>\<open>password\<close> is the text of the input at the call, and
  \<^verbatim>\<open>total_time\<close> is the rounded time from \<^verbatim>\<open>startTime\<close> to the clock at the call (0 while
  \<^verbatim>\<open>startTime\<close> is falsy). Two exports made with the same input text and the same rounded
  elapsed time return the same payload.
\<close>

theorem stopped_export:
  assumes "\<not> isRecording s"
  shows "fst (stopRecording s v now) = s
     \<and> snd (stopRecording s v now) = exportPayload s v now
     \<and> step s (KeyDown k now) = s \<and> step s (KeyUp k now) = s \<and> step s (Export v now) = s
     \<and> keystroke_timings (exportPayload s v now) = keystroke_timings (exportPayload s v' now')
     \<and> password (exportPayload s v now) = v
     \<and> total_time (exportPayload s v now)
         = (if falsy (startTime s) then 0 else js_round (now - to_number (startTime s)))
     \<and> (v = v' \<and> js_round (now - to_number (startTime s)) = js_round (now' - to_number (startTime s))
          \<longrightarrow> exportPayload s v now = exportPayload s v' now')"
proof -
  from assms have "s\<lparr>isRecording := False\<rparr> = s" by simp
  then have stop: "stopRecording s v now = (s, exportPayload s v now)"
    by (simp add: stopRecording_def Let_def)
  from assms have keys: "onKeyDown s k now = s" "onKeyUp s k now = s"
    by (simp_all add: onKeyDown_def onKeyUp_def)
  have fields: "keystroke_timings (exportPayload s v now) = keystroke_timings (exportPayload s v' now')"
    "password (exportPayload s v now) = v"
    "total_time (exportPayload s v now)
       = (if falsy (startTime s) then 0 else js_round (now - to_number (startTime s)))"
    by (simp_all add: exportPayload_def Let_def)
  have same: "exportPayload s v now = exportPayload s v' now'"
    if "v = v' \<and> js_round (now - to_number (startTime s)) = js_round (now' - to_number (startTime s))"
    using that by (simp add: exportPayload_def Let_def)
  from stop keys fields same show ?thesis by simp
qed

theorem stopped_export_witness:
  "\<not> isRecording (run [Start 1000, KeyDown ''a'' 1010, KeyUp ''a'' 1090, Stop ''a'' 1100])
   \<and> fst (stopRecording (run [Start 1000, KeyDown ''a'' 1010, KeyUp ''a'' 1090, Stop ''a'' 1100])
        ''a'' 1250)
     = run [Start 1000, KeyDown ''a'' 1010, KeyUp ''a'' 1090, Stop ''a'' 1100]
   \<and> keystroke_timings (exportPayload
        (run [Start 1000, KeyDown ''a'' 1010, KeyUp ''a'' 1090, Stop ''a'' 1100]) ''a'' 1250)
     = keystroke_timings (exportPayload
        (run [Start 1000, KeyDown ''a'' 1010, KeyUp ''a'' 1090, Stop ''a'' 1100]) ''ab'' 1300)"
proof -
  have h: "\<not> isRecording (run [Start 1000, KeyDown ''a'' 1010, KeyUp ''a'' 1090, Stop ''a'' 1100])"
    by (simp add: recorder_defs)
  from stopped_export [OF h, of "''a''" 1250 "''a''" "''ab''" 1300] h
  show ?thesis by simp
qed

section \<open>Properties of the comparator\<close>

lemma zip_as_map_nth:
  "zip xs ys = map (\<lambda>i. (xs ! i, ys ! i)) [0..<min (length xs) (length ys)]"
  by (rule nth_equalityI) simp_all

lemma compare_step_pair:
  "compare_step t1 t2 i acc =
     (if pair_valid (t1 ! i, t2 ! i)
      then (fst acc + \<bar>dwell (t1 ! i) - dwell (t2 ! i)\<bar>, snd acc + 1) else acc)"
  by (cases acc) (simp add: compare_step_def pair_valid_def Let_def)

lemma fold_pairs:
  "fold (\<lambda>p acc. if pair_valid p then (fst acc + \<bar>dwell (fst p) - dwell (snd p)\<bar>, snd acc + 1) else acc)
      zs (td, vc)
   = (td + sum_list (map (\<lambda>p. \<bar>dwell (fst p) - dwell (snd p)\<bar>) (filter pair_valid zs)),
      vc + length (filter pair_valid zs))"
  by (induction zs arbitrary: td vc) simp_all

lemma compare_loop_closed:
  "compare_loop t1 t2 =
     (sum_list (map (\<lambda>p. \<bar>dwell (fst p) - dwell (snd p)\<bar>) (filter pair_valid (zip t1 t2))),
      length (filter pair_valid (zip t1 t2)))"
proof -
  have "compare_loop t1 t2 =
      fold ((\<lambda>p acc. if pair_valid p then (fst acc + \<bar>dwell (fst p) - dwell (snd p)\<bar>, snd acc + 1) else acc)
              \<circ> (\<lambda>i. (t1 ! i, t2 ! i)))
        [0..<min (length t1) (length t2)] (0, 0)"
    unfolding compare_loop_def
    by (rule arg_cong [where f = "\<lambda>f. fold f _ _"]) (auto simp: compare_step_pair fun_eq_iff)
  also have "\<dots> = fold (\<lambda>p acc. if pair_valid p then (fst acc + \<bar>dwell (fst p) - dwell (snd p)\<bar>, snd acc + 1) else acc)
        (zip t1 t2) (0, 0)"
    by (simp only: zip_as_map_nth fold_map)
  finally show ?thesis by (simp add: fold_pairs)
qed

subsection \<open>Pairs with a dwell that is not positive\<close>

text \<open>
  Claim C4. At a position where the two keys are equal and one of the two dwells is 0 or
  negative, the loop body leaves both the accumulated difference and the count of valid
  comparisons as they were; and the loop over two lists gives the same pair of values as
  the loop over the lists without that position.
\<close>

theorem nonpositive_dwell_pair_is_skipped:
  "(key (t1 ! i) = key (t2 ! i) \<and> (dwell (t1 ! i) \<le> 0 \<or> dwell (t2 ! i) \<le> 0) \<longrightarrow>
      compare_step t1 t2 i acc = acc)
   \<and> (length xs = length ys \<and> key x = key y \<and> (dwell x \<le> 0 \<or> dwell y \<le> 0) \<longrightarrow>
      compare_loop (xs @ x # xs') (ys @ y # ys') = compare_loop (xs @ xs') (ys @ ys'))"
proof (intro conjI impI)
  assume "key (t1 ! i) = key (t2 ! i) \<and> (dwell (t1 ! i) \<le> 0 \<or> dwell (t2 ! i) \<le> 0)"
  then have "\<not> pair_valid (t1 ! i, t2 ! i)" by (auto simp: pair_valid_def)
  then show "compare_step t1 t2 i acc = acc" by (simp add: compare_step_pair)
next
  assume a: "length xs = length ys \<and> key x = key y \<and> (dwell x \<le> 0 \<or> dwell y \<le> 0)"
  then have "\<not> pair_valid (x, y)" by (auto simp: pair_valid_def)
  with a show "compare_loop (xs @ x # xs') (ys @ y # ys') = compare_loop (xs @ xs') (ys @ ys')"
    by (simp add: compare_loop_closed)
qed

theorem nonpositive_dwell_pair_is_skipped_witness:
  "key (reference_ab ! 1) = key (candidate_ab ! 1)
   \<and> dwell (reference_ab ! 1) \<le> 0
   \<and> compare_step reference_ab candidate_ab 1 (15, 1) = (15, 1)
   \<and> compare_loop reference_ab candidate_ab
       = compare_loop (take 1 reference_ab) (take 1 candidate_ab)
   \<and> compare_loop reference_ab candidate_ab = (15, 1)"
proof -
  have k: "key (reference_ab ! 1) = key (candidate_ab ! 1)"
    by (simp add: reference_ab_def candidate_ab_def)
  have d: "dwell (reference_ab ! 1) \<le> 0"
    by (simp add: reference_ab_def dwell_def int_number_def)
  have v: "compare_loop (take 1 reference_ab) (take 1 candidate_ab) = (15, 1)"
    by (simp add: reference_ab_def candidate_ab_def compare_loop_def compare_step_def dwell_def
        int_number_def)
  from nonpositive_dwell_pair_is_skipped
    [of reference_ab 1 candidate_ab "(15, 1)" "take 1 reference_ab" "take 1 candidate_ab"
        "reference_ab ! 1" "candidate_ab ! 1" "[]" "[]"]
    k d v
  show ?thesis by (simp add: reference_ab_def candidate_ab_def)
qed

lemma compare_loop_self:
  "compare_loop ts ts = (0, length (filter (\<lambda>t. 0 < dwell t) ts))"
proof -
  have z: "zip ts ts = map (\<lambda>t. (t, t)) ts" by (induction ts) simp_all
  have "filter pair_valid (map (\<lambda>t. (t, t)) ts) = map (\<lambda>t. (t, t)) (filter (\<lambda>t. 0 < dwell t) ts)"
    by (simp add: filter_map comp_def pair_valid_def)
  then show ?thesis
    by (simp add: compare_loop_closed z comp_def)
qed

subsection \<open>A payload compared with itself\<close>

text \<open>
  Claim C5. A payload that has a timing list with at least one positive dwell, compared
  with itself, gets score 1 and \<^verbatim>\<open>similar = true\<close>, for every threshold up to 1.
\<close>

theorem compare_with_itself:
  assumes "keystroke_timings p = Some ts" and "\<exists>t \<in> set ts. 0 < dwell t" and "threshold \<le> 1"
  shows "score (compareKeystrokePatterns p p threshold) = 1
     \<and> similar (compareKeystrokePatterns p p threshold)"
proof -
  from assms(2) have "filter (\<lambda>t. 0 < dwell t) ts \<noteq> []"
    by (simp add: filter_empty_conv)
  then have n: "length (filter (\<lambda>t. 0 < dwell t) ts) \<noteq> 0" by simp
  have j: "js_round 100 = 100" by (simp add: js_round_def)
  show ?thesis
    using assms(1,3) n
    by (simp add: compareKeystrokePatterns_def compare_loop_self Let_def j)
qed

theorem compare_with_itself_witness:
  "keystroke_timings sample_ab = Some reference_ab
   \<and> (\<exists>t \<in> set reference_ab. 0 < dwell t)
   \<and> score (compareKeystrokePatterns sample_ab sample_ab (7 / 10)) = 1
   \<and> similar (compareKeystrokePatterns sample_ab sample_ab (7 / 10))"
proof -
  have p: "keystroke_timings sample_ab = Some reference_ab"
    by (simp add: sample_ab_def)
  have h: "\<exists>t \<in> set reference_ab. 0 < dwell t"
    by (simp add: reference_ab_def dwell_def int_number_def)
  from compare_with_itself [OF p h, of "7 / 10"] p h show ?thesis by simp
qed

subsection \<open>Different passwords\<close>

text \<open>
  Claim C9 says that different passwords always give the reason PasswordMismatch. The
  test for a missing \<^verbatim>\<open>keystroke_timings\<close> comes first in the code: with passwords
  \<^verbatim>\<open>abc\<close> and \<^verbatim>\<open>xyz\<close> and no timing list in the first payload the reason is
  InsufficientData.
\<close>

theorem password_mismatch_counterexample:
  "password \<lparr>password = ''abc'', keystroke_timings = None, total_time = 0\<rparr>
     \<noteq> password \<lparr>password = ''xyz'', keystroke_timings = Some [], total_time = 0\<rparr>
   \<and> reason (compareKeystrokePatterns
        \<lparr>password = ''abc'', keystroke_timings = None, total_time = 0\<rparr>
        \<lparr>password = ''xyz'', keystroke_timings = Some [], total_time = 0\<rparr> (7 / 10))
     = InsufficientData
   \<and> reason (compareKeystrokePatterns
        \<lparr>password = ''abc'', keystroke_timings = None, total_time = 0\<rparr>
        \<lparr>password = ''xyz'', keystroke_timings = Some [], total_time = 0\<rparr> (7 / 10))
     \<noteq> PasswordMismatch"
  by (simp add: compareKeystrokePatterns_def rejected_def)

text \<open>
  Claim C9, as the code has it. When both payloads have a \<^verbatim>\<open>keystroke_timings\<close> list and
  the passwords differ, the result is PasswordMismatch with score 0 and
  \<^verbatim>\<open>similar = false\<close>, whatever the lists hold and whatever the threshold. When either
  payload has no \<^verbatim>\<open>keystroke_timings\<close> list, the result is InsufficientData with score 0
  and \<^verbatim>\<open>similar = false\<close>, whatever the passwords, the other payload and the threshold.
\<close>

theorem password_mismatch:
  "(keystroke_timings p1 \<noteq> None \<and> keystroke_timings p2 \<noteq> None
      \<and> password p1 \<noteq> password p2 \<longrightarrow>
        reason (compareKeystrokePatterns p1 p2 threshold) = PasswordMismatch
        \<and> score (compareKeystrokePatterns p1 p2 threshold) = 0
        \<and> \<not> similar (compareKeystrokePatterns p1 p2 threshold))
   \<and> (keystroke_timings p1 = None \<or> keystroke_timings p2 = None \<longrightarrow>
        reason (compareKeystrokePatterns p1 p2 threshold) = InsufficientData
        \<and> score (compareKeystrokePatterns p1 p2 threshold) = 0
        \<and> \<not> similar (compareKeystrokePatterns p1 p2 threshold)
        \<and> avgDifference (compareKeystrokePatterns p1 p2 threshold) = None
        \<and> validComparisons (compareKeystrokePatterns p1 p2 threshold) = None)"
proof (intro conjI impI)
  assume a: "keystroke_timings p1 \<noteq> None \<and> keystroke_timings p2 \<noteq> None
      \<and> password p1 \<noteq> password p2"
  then obtain ts1 ts2 where "keystroke_timings p1 = Some ts1" "keystroke_timings p2 = Some ts2"
    by auto
  with a have "compareKeystrokePatterns p1 p2 threshold = rejected PasswordMismatch"
    by (simp add: compareKeystrokePatterns_def)
  then show "reason (compareKeystrokePatterns p1 p2 threshold) = PasswordMismatch"
    and "score (compareKeystrokePatterns p1 p2 threshold) = 0"
    and "\<not> similar (compareKeystrokePatterns p1 p2 threshold)"
    by (simp_all add: rejected_def)
next
  assume "keystroke_timings p1 = None \<or> keystroke_timings p2 = None"
  then have "compareKeystrokePatterns p1 p2 threshold = rejected InsufficientData"
    by (auto simp: compareKeystrokePatterns_def split: option.splits)
  then show "reason (compareKeystrokePatterns p1 p2 threshold) = InsufficientData"
    and "score (compareKeystrokePatterns p1 p2 threshold) = 0"
    and "\<not> similar (compareKeystrokePatterns p1 p2 threshold)"
    and "avgDifference (compareKeystrokePatterns p1 p2 threshold) = None"
    and "validComparisons (compareKeystrokePatterns p1 p2 threshold) = None"
    by (simp_all add: rejected_def)
qed

theorem password_mismatch_witness:
  "keystroke_timings \<lparr>password = ''abc'', keystroke_timings = Some reference_ab, total_time = 200\<rparr>
     \<noteq> None
   \<and> keystroke_timings \<lparr>password = ''xyz'', keystroke_timings = Some candidate_ab, total_time = 210\<rparr>
     \<noteq> None
   \<and> password \<lparr>password = ''abc'', keystroke_timings = Some reference_ab, total_time = 200\<rparr>
     \<noteq> password \<lparr>password = ''xyz'', keystroke_timings = Some candidate_ab, total_time = 210\<rparr>
   \<and> reason (compareKeystrokePatterns
        \<lparr>password = ''abc'', keystroke_timings = Some reference_ab, total_time = 200\<rparr>
        \<lparr>password = ''xyz'', keystroke_timings = Some candidate_ab, total_time = 210\<rparr> (7 / 10))
     = PasswordMismatch
   \<and> keystroke_timings \<lparr>password = ''ab'', keystroke_timings = None, total_time = 210\<rparr> = None
   \<and> reason (compareKeystrokePatterns sample_ab
        \<lparr>password = ''ab'', keystroke_timings = None, total_time = 210\<rparr> (7 / 10))
     = InsufficientData
   \<and> \<not> similar (compareKeystrokePatterns sample_ab
        \<lparr>password = ''ab'', keystroke_timings = None, total_time = 210\<rparr> (7 / 10))
   \<and> reason (compareKeystrokePatterns
        \<lparr>password = ''ab'', keystroke_timings = None, total_time = 210\<rparr> sample_ab (7 / 10))
     = InsufficientData"
  using password_mismatch
    [of "\<lparr>password = ''abc'', keystroke_timings = Some reference_ab, total_time = 200\<rparr>"
        "\<lparr>password = ''xyz'', keystroke_timings = Some candidate_ab, total_time = 210\<rparr>" "7 / 10"]
    password_mismatch
    [of sample_ab "\<lparr>password = ''ab'', keystroke_timings = None, total_time = 210\<rparr>" "7 / 10"]
    password_mismatch
    [of "\<lparr>password = ''ab'', keystroke_timings = None, total_time = 210\<rparr>" sample_ab "7 / 10"]
  by simp

section \<open>Properties of the analyzer\<close>

lemma long_dwells_all: "filter (\<lambda>d. d > 500) (dwellTimes ts) = filter (\<lambda>d. d > 500) (map dwell ts)"
  by (auto simp: dwellTimes_def intro: filter_cong)

lemma short_dwells_all:
  "filter (\<lambda>d. d < 30) (dwellTimes ts) = filter (\<lambda>d. 0 < d \<and> d < 30) (map dwell ts)"
  by (auto simp: dwellTimes_def intro: filter_cong)

lemma length_filter_map: "length (filter P (map f xs)) = length (filter (\<lambda>x. P (f x)) xs)"
  by (simp add: filter_map comp_def)

lemma no_dwellTimes:
  assumes "dwellTimes ts = []"
  shows "filter (\<lambda>t. 500 < dwell t) ts = []" and "filter (\<lambda>t. 0 < dwell t \<and> dwell t < 30) ts = []"
proof -
  from assms have "\<forall>t \<in> set ts. \<not> 0 < dwell t"
    by (simp add: dwellTimes_def filter_empty_conv)
  then show "filter (\<lambda>t. 500 < dwell t) ts = []" and "filter (\<lambda>t. 0 < dwell t \<and> dwell t < 30) ts = []"
    by (auto simp: filter_empty_conv)
qed

lemma anomalies_long:
  "KeysHeldTooLong \<in> set (anomalies_of (analyzeKeystrokePattern p)) \<longleftrightarrow>
     real (length (filter (\<lambda>t. dwell t > 500) (entries p))) > real (length (entries p)) * (3 / 10)"
proof (cases "keystroke_timings p")
  case None
  then show ?thesis by (simp add: analyzeKeystrokePattern_def anomalies_of_def entries_def)
next
  case (Some ts)
  show ?thesis
  proof (cases "ts = [] \<or> dwellTimes ts = []")
    case True
    then have "filter (\<lambda>t. 500 < dwell t) ts = []" using no_dwellTimes(1) by auto
    with True Some show ?thesis
      by (auto simp: analyzeKeystrokePattern_def anomalies_of_def entries_def)
  next
    case False
    with Some show ?thesis
      by (simp add: analyzeKeystrokePattern_def anomalies_of_def entries_def detect_def Let_def
          long_dwells_all length_filter_map comp_def)
  qed
qed

lemma anomalies_short:
  "KeysTooFast \<in> set (anomalies_of (analyzeKeystrokePattern p)) \<longleftrightarrow>
     real (length (filter (\<lambda>t. 0 < dwell t \<and> dwell t < 30) (entries p)))
       > real (length (entries p)) * (3 / 10)"
proof (cases "keystroke_timings p")
  case None
  then show ?thesis by (simp add: analyzeKeystrokePattern_def anomalies_of_def entries_def)
next
  case (Some ts)
  show ?thesis
  proof (cases "ts = [] \<or> dwellTimes ts = []")
    case True
    then have "filter (\<lambda>t. 0 < dwell t \<and> dwell t < 30) ts = []" using no_dwellTimes(2) by auto
    with True Some show ?thesis
      by (auto simp: analyzeKeystrokePattern_def anomalies_of_def entries_def)
  next
    case False
    with Some show ?thesis
      by (simp add: analyzeKeystrokePattern_def anomalies_of_def entries_def detect_def Let_def
          short_dwells_all length_filter_map comp_def)
  qed
qed

subsection \<open>Dwell anomalies\<close>

text \<open>
  Claim C8. KeysHeldTooLong is reported exactly when the number of entries with a dwell
  above 500 is strictly more than 30 percent of the number of entries, and KeysTooFast
  exactly when the number of dwells below 30 is; the dwells that the analyzer counts are
  the positive ones it kept (every dwell above 500 is one of them, a dwell of 0 or less
  is not counted as a short one). With 10 entries, 4 long dwells give the anomaly and 2
  do not.
\<close>

theorem dwell_anomaly_thresholds:
  "(KeysHeldTooLong \<in> set (anomalies_of (analyzeKeystrokePattern p)) \<longleftrightarrow>
      real (length (filter (\<lambda>t. dwell t > 500) (entries p))) > real (length (entries p)) * (3 / 10))
   \<and> (KeysTooFast \<in> set (anomalies_of (analyzeKeystrokePattern p)) \<longleftrightarrow>
      real (length (filter (\<lambda>t. 0 < dwell t \<and> dwell t < 30) (entries p)))
        > real (length (entries p)) * (3 / 10))
   \<and> (length (entries p) = 10 \<and> length (filter (\<lambda>t. dwell t > 500) (entries p)) = 4 \<longrightarrow>
        KeysHeldTooLong \<in> set (anomalies_of (analyzeKeystrokePattern p)))
   \<and> (length (entries p) = 10 \<and> length (filter (\<lambda>t. dwell t > 500) (entries p)) = 2 \<longrightarrow>
        KeysHeldTooLong \<notin> set (anomalies_of (analyzeKeystrokePattern p)))"
  by (simp add: anomalies_long anomalies_short)

lemma four_long_counts:
  "length (entries four_long) = 10"
  "length (filter (\<lambda>t. dwell t > 500) (entries four_long)) = 4"
  by code_simp+

lemma two_long_counts:
  "length (entries two_long) = 10"
  "length (filter (\<lambda>t. dwell t > 500) (entries two_long)) = 2"
  by code_simp+

theorem dwell_anomaly_thresholds_witness:
  "length (entries four_long) = 10
   \<and> length (filter (\<lambda>t. dwell t > 500) (entries four_long)) = 4
   \<and> KeysHeldTooLong \<in> set (anomalies_of (analyzeKeystrokePattern four_long))
   \<and> length (entries two_long) = 10
   \<and> length (filter (\<lambda>t. dwell t > 500) (entries two_long)) = 2
   \<and> KeysHeldTooLong \<notin> set (anomalies_of (analyzeKeystrokePattern two_long))"
  using dwell_anomaly_thresholds [of four_long] dwell_anomaly_thresholds [of two_long]
    four_long_counts two_long_counts
  by blast

subsection \<open>Overlapping keys\<close>

text \<open>
  Claim C2 (the anomaly ExcessiveOverlap is reported when more than half of the flight
  computations are negative) does not hold of the code: \<^verbatim>\<open>flightTimes\<close> keeps the flights
  that are 0 or more only, so the count of negative values in it is always 0. For the
  payload \<open>overlapping\<close> the one flight computed is -50, and the analysis reports no
  anomaly.
\<close>

theorem overlap_missed:
  "flights (entries overlapping) = [- 50]
   \<and> length (filter (\<lambda>f. f < 0) (flights (entries overlapping))) = 1
   \<and> real (length (filter (\<lambda>f. f < 0) (flights (entries overlapping))))
       > real (length (flights (entries overlapping))) * (1 / 2)
   \<and> analyzeKeystrokePattern overlapping
       = Report True [] \<lparr>avgDwell = 100, avgFlight = 0, totalKeys = 2, validDwells = 2, totalTime = 150\<rparr>
   \<and> ExcessiveOverlap \<notin> set (anomalies_of (analyzeKeystrokePattern overlapping))"
proof -
  have f: "flights (entries overlapping) = [- 50]"
    by (simp add: flights_def entries_def overlapping_def int_number_def)
  have a: "analyzeKeystrokePattern overlapping
       = Report True [] \<lparr>avgDwell = 100, avgFlight = 0, totalKeys = 2, validDwells = 2, totalTime = 150\<rparr>"
    by (simp add: analyzeKeystrokePattern_def overlapping_def dwellTimes_def flightTimes_def
        flights_def detect_def dwell_def int_number_def js_round_def Let_def)
  from f a show ?thesis by (simp add: anomalies_of_def)
qed

text \<open>No payload at all makes the analyzer report the anomaly.\<close>

lemma flightTimes_nonnegative: "filter (\<lambda>f. f < 0) (flightTimes ts) = []"
  by (auto simp: flightTimes_def filter_empty_conv)

lemma overlap_never_reported: "ExcessiveOverlap \<notin> set (anomalies_of (analyzeKeystrokePattern p))"
  by (simp add: analyzeKeystrokePattern_def anomalies_of_def detect_def Let_def
      flightTimes_nonnegative split: option.splits)

section \<open>The other variants\<close>

text \<open>
  The shortest variant suppresses a repeated press only when the open record of the key is
  the last record: with another key pressed in between, a second open record is made.
\<close>

lemma simple_onKeyDown_interleaved:
  assumes "a \<noteq> b"
  shows "map (\<lambda>t. (key t, release_time t))
           (simple_timings (simple_onKeyDown (simple_onKeyDown (simple_onKeyDown simple_init
              a n0 n1) b n2 n3) a n4 n5))
         = [(a, None), (b, None), (a, None)]"
  using assms by (simp add: simple_onKeyDown_def simple_init_def Let_def)

text \<open>
  The comparator of the variant at source lines 1 to 293 counts every pair with equal
  keys, whatever the dwells.
\<close>

lemma unfiltered_compare_step_counts:
  assumes "key (t1 ! i) = key (t2 ! i)"
  shows "unfiltered_compare_step t1 t2 i (td, vc)
         = (td + \<bar>dwell (t1 ! i) - dwell (t2 ! i)\<bar>, vc + 1)"
  using assms by (simp add: unfiltered_compare_step_def Let_def)

end
